theory Spec2Isabelle
  imports Main "HOL-Library.AList"
begin

section \<open>Strings\<close>

text \<open>
  Python strings are modelled as \<^typ>\<open>string\<close>; a \<^typ>\<open>char\<close> stands for a code point
  below 256. The line terminator is the single character U+000A.
\<close>

abbreviation NL :: string where
  "NL \<equiv> [CHR 0x0A]"

text \<open>
  The characters \<^verbatim>\<open>str.isspace\<close> accepts below 256: U+0009..U+000D, U+001C..U+001F,
  U+0020, U+0085 and U+00A0. They are what \<^verbatim>\<open>str.split()\<close> and \<^verbatim>\<open>str.strip()\<close> treat as
  separators when called without an argument.
\<close>

definition isspace :: "char \<Rightarrow> bool" where
  "isspace c = (of_char c \<in> set [9, 10, 11, 12, 13, 28, 29, 30, 31, 32, 133, 160 :: nat])"

text \<open>\<^verbatim>\<open>s.startswith(p)\<close>\<close>

definition startswith :: "string \<Rightarrow> string \<Rightarrow> bool" where
  "startswith s p = (take (length p) s = p)"

text \<open>
  \<^verbatim>\<open>s.split()\<close>: the maximal runs of non-whitespace characters, in order; the second
  argument is the token being read.
\<close>

fun split_from :: "string \<Rightarrow> string \<Rightarrow> string list" where
  "split_from [] tok = (if tok = [] then [] else [tok])"
| "split_from (c # cs) tok =
     (if isspace c then (if tok = [] then split_from cs [] else tok # split_from cs [])
      else split_from cs (tok @ [c]))"

definition split :: "string \<Rightarrow> string list" where
  "split s = split_from s []"

text \<open>\<^verbatim>\<open>s.strip()\<close>\<close>

definition strip :: "string \<Rightarrow> string" where
  "strip s = rev (dropWhile isspace (rev (dropWhile isspace s)))"

text \<open>\<^verbatim>\<open>str(x)\<close> for a value that is a string or \<^verbatim>\<open>None\<close>, as an f-string renders it.\<close>

definition py_str :: "string option \<Rightarrow> string" where
  "py_str x = (case x of None \<Rightarrow> ''None'' | Some s \<Rightarrow> s)"

section \<open>The line stream\<close>

text \<open>
  An open text file, as the parser sees it: its \<^verbatim>\<open>name\<close> and the lines its iterator
  yields.
\<close>

record File =
  name :: string
  lines :: "string list"

text \<open>
  \<^verbatim>\<open>LineStream\<close> (lines 22-46). \<open>iter\<close> is what \<^verbatim>\<open>enumerate(iter(file))\<close> has still to yield,
  \<open>curr_pair\<close> is the slot \<^verbatim>\<open>_curr\<close>: \<^verbatim>\<open>None\<close> or a pair of a 0-based index and a line.
\<close>

record LineStream =
  fname :: string
  iter :: "(nat \<times> string) list"
  curr_pair :: "(nat \<times> string) option"

datatype pyval = PStr string | PStream LineStream

datatype error =
    StarParseError string nat pyval
  | TypeError
  | AttributeError
  | IndexError

text \<open>\<^verbatim>\<open>LineStream.next\<close> (lines 41-46): \<^verbatim>\<open>StopIteration\<close> is caught and leaves \<^verbatim>\<open>None\<close>.\<close>

definition next_line :: "LineStream \<Rightarrow> LineStream" where
  "next_line s =
     (case iter s of
        [] \<Rightarrow> s\<lparr>curr_pair := None\<rparr>
      | p # ps \<Rightarrow> s\<lparr>iter := ps, curr_pair := Some p\<rparr>)"

text \<open>\<^verbatim>\<open>LineStream.__init__\<close> (lines 25-29)\<close>

definition LineStream_init :: "File \<Rightarrow> LineStream" where
  "LineStream_init file =
     next_line \<lparr>fname = name file, iter = enumerate 0 (lines file), curr_pair = None\<rparr>"

text \<open>
  \<^verbatim>\<open>LineStream.row\<close> (lines 31-34): \<^verbatim>\<open>self._curr[0] + 1\<close>. Subscripting \<^verbatim>\<open>None\<close> raises
  \<^verbatim>\<open>TypeError\<close>.
\<close>

definition row :: "LineStream \<Rightarrow> error + nat" where
  "row s = (case curr_pair s of None \<Rightarrow> Inl TypeError | Some p \<Rightarrow> Inr (fst p + 1))"

text \<open>\<^verbatim>\<open>LineStream.curr\<close> (lines 36-39)\<close>

definition curr :: "LineStream \<Rightarrow> string option" where
  "curr s = (case curr_pair s of None \<Rightarrow> None | Some p \<Rightarrow> Some (snd p))"

section \<open>The parse error\<close>

text \<open>
  Calling \<^verbatim>\<open>StarParseError(...)\<close> with the given positional arguments (lines 14-19). The
  signature is \<^verbatim>\<open>(self, stream, descr, *args, **kwargs)\<close>: with fewer than two arguments
  Python raises \<^verbatim>\<open>TypeError\<close> before the body runs; a first argument that is a string
  has no attribute \<^verbatim>\<open>fname\<close>. The value the \<^verbatim>\<open>raise\<close> statement raises is the result.
\<close>

fun StarParseError_new :: "pyval list \<Rightarrow> error" where
  "StarParseError_new [] = TypeError"
| "StarParseError_new [stream] = TypeError"
| "StarParseError_new (PStr s # descr # args) = AttributeError"
| "StarParseError_new (PStream stream # descr # args) =
     (case row stream of
        Inl e \<Rightarrow> e
      | Inr r \<Rightarrow> StarParseError (fname stream) r descr)"

section \<open>The parser\<close>

text \<open>
  The only state of a \<^verbatim>\<open>StarParser\<close> is its stream (lines 52-53), so every method takes
  the stream and returns it updated.
\<close>

definition StarParser_init :: "File \<Rightarrow> LineStream" where
  "StarParser_init file = LineStream_init file"

text \<open>\<^verbatim>\<open>accept\<close> (lines 55-60)\<close>

definition accept :: "string option \<Rightarrow> LineStream \<Rightarrow> bool \<times> LineStream" where
  "accept item s = (if curr s = item then (True, next_line s) else (False, s))"

text \<open>\<^verbatim>\<open>expect\<close> (lines 62-64)\<close>

definition expect :: "string option \<Rightarrow> LineStream \<Rightarrow> error + LineStream" where
  "expect item s =
     (case accept item s of
        (True, s') \<Rightarrow> Inr s'
      | (False, s') \<Rightarrow>
          Inl (StarParseError_new
                 [PStr (''expected '' @ [CHR 0x27] @ py_str item @ [CHR 0x27] @
                        '', found '' @ [CHR 0x27] @ py_str (curr s') @ [CHR 0x27])]))"

text \<open>
  \<^verbatim>\<open>parse_data_name\<close> (lines 121-128). \<^verbatim>\<open>None\<close> has no \<^verbatim>\<open>startswith\<close>; \<^verbatim>\<open>[0]\<close> of an empty
  list raises \<^verbatim>\<open>IndexError\<close>.
\<close>

definition parse_data_name :: "LineStream \<Rightarrow> error + (string option \<times> LineStream)" where
  "parse_data_name s =
     (case curr s of
        None \<Rightarrow> Inl AttributeError
      | Some line \<Rightarrow>
          if \<not> startswith line ''_'' then Inr (None, s)
          else (case split (drop 1 line) of
                  [] \<Rightarrow> Inl IndexError
                | data_name # _ \<Rightarrow> Inr (Some data_name, next_line s)))"

text \<open>The number of lines the stream still holds, the current one included.\<close>

definition remaining :: "LineStream \<Rightarrow> nat" where
  "remaining s = length (iter s) + (case curr_pair s of None \<Rightarrow> 0 | Some _ \<Rightarrow> 1)"

text \<open>The first loop of \<^verbatim>\<open>parse_loop_content\<close> (lines 98-103).\<close>

function data_names_loop ::
  "string list \<Rightarrow> LineStream \<Rightarrow> error + (string list \<times> LineStream)" where
  "data_names_loop data_names s =
     (case parse_data_name s of
        Inl e \<Rightarrow> Inl e
      | Inr (None, s') \<Rightarrow> Inr (data_names, s')
      | Inr (Some data_name, s') \<Rightarrow> data_names_loop (data_names @ [data_name]) s')"
  by pat_completeness auto
termination
proof (relation "measure (\<lambda>(data_names, s). remaining s)")
  show "wf (measure (\<lambda>(data_names, s). remaining s))"
    by simp
next
  fix data_names :: "string list" and s x s' y data_name
  assume "parse_data_name s = Inr x" and "(y, s') = x" and "y = Some data_name"
  then have "curr s \<noteq> None" and "s' = next_line s"
    by (auto simp: parse_data_name_def split: option.splits if_splits list.splits)
  then have "remaining s' < remaining s"
    by (cases "iter s"; cases "curr_pair s")
       (simp_all add: remaining_def next_line_def curr_def)
  then show "((data_names @ [data_name], s'), (data_names, s))
             \<in> measure (\<lambda>(data_names, s). remaining s)"
    by simp
qed

declare data_names_loop.simps [simp del]

text \<open>
  \<^verbatim>\<open>pandas.DataFrame.from_records(rows, columns=data_names)\<close>: the table of an external
  library, kept as the two sequences it is built from.
\<close>

record DataFrame =
  columns :: "string list"
  records :: "string list list"

definition from_records :: "string list list \<Rightarrow> string list \<Rightarrow> DataFrame" where
  "from_records rows data_names = \<lparr>columns = data_names, records = rows\<rparr>"

text \<open>
  The second loop of \<^verbatim>\<open>parse_loop_content\<close> (lines 108-117). \<^verbatim>\<open>accept(None)\<close> is only
  tried when \<^verbatim>\<open>accept("\n")\<close> has failed.
\<close>

function rows_loop ::
  "string list \<Rightarrow> string list list \<Rightarrow> LineStream
   \<Rightarrow> error + (string list list \<times> LineStream)" where
  "rows_loop data_names rows s =
     (case accept (Some NL) s of
        (True, s1) \<Rightarrow> Inr (rows, s1)
      | (False, s1) \<Rightarrow>
          (case accept None s1 of
             (True, s2) \<Rightarrow> Inr (rows, s2)
           | (False, s2) \<Rightarrow>
               (case curr s2 of
                  None \<Rightarrow> Inl AttributeError
                | Some line \<Rightarrow>
                    if length (split line) \<noteq> length data_names
                    then Inl (StarParseError_new
                           [PStr ''number of data items in row does not match number of data names''])
                    else rows_loop data_names (rows @ [split line]) (next_line s2))))"
  by pat_completeness auto
termination
proof (relation "measure (\<lambda>(data_names, rows, s). remaining s)")
  show "wf (measure (\<lambda>(data_names, rows, s). remaining s))"
    by simp
next
  fix data_names :: "string list" and rows :: "string list list"
    and s x b1 s1 y b2 s2 line
  assume "(b1, s1) = accept (Some NL) s" and "(b2, s2) = accept None s1"
    and "curr s2 = Some line"
  then have acc: "s1 = s \<or> s1 = next_line s" "s2 = s1 \<or> s2 = next_line s1"
    and cur: "curr s2 \<noteq> None"
    by (auto simp: accept_def split: if_splits)
  have le: "remaining (next_line t) \<le> remaining t" for t
    by (cases "iter t"; cases "curr_pair t") (simp_all add: remaining_def next_line_def)
  have "remaining (next_line s2) < remaining s2"
    using cur by (cases "iter s2"; cases "curr_pair s2")
      (simp_all add: remaining_def next_line_def curr_def)
  moreover have "remaining s1 \<le> remaining s"
    using acc(1) le [of s] by auto
  moreover have "remaining s2 \<le> remaining s1"
    using acc(2) le [of s1] by auto
  ultimately have "remaining (next_line s2) < remaining s"
    by linarith
  then show "((data_names, rows @ [split line], next_line s2), (data_names, rows, s))
             \<in> measure (\<lambda>(data_names, rows, s). remaining s)"
    by simp
qed

declare rows_loop.simps [simp del]

text \<open>\<^verbatim>\<open>parse_loop_content\<close> (lines 97-119)\<close>

definition parse_loop_content :: "LineStream \<Rightarrow> error + (DataFrame \<times> LineStream)" where
  "parse_loop_content s =
     (case data_names_loop [] s of
        Inl e \<Rightarrow> Inl e
      | Inr (data_names, s1) \<Rightarrow>
          if length data_names = 0
          then Inl (StarParseError_new [PStr ''no data names found for loop''])
          else (case rows_loop data_names [] s1 of
                  Inl e \<Rightarrow> Inl e
                | Inr (rows, s2) \<Rightarrow> Inr (from_records rows data_names, s2)))"

text \<open>
  \<^verbatim>\<open>parse_data_block\<close> (lines 84-95). The result of \<^verbatim>\<open>self.accept("\n")\<close> is not used,
  only its effect on the stream.
\<close>

definition parse_data_block ::
  "LineStream \<Rightarrow> error + ((string \<times> DataFrame) option \<times> LineStream)" where
  "parse_data_block s =
     (let data_tag = ''data_'' in
      case curr s of
        None \<Rightarrow> Inr (None, s)
      | Some line \<Rightarrow>
          if \<not> startswith line data_tag then Inr (None, s)
          else
            (let block_name = strip (drop (length data_tag) line);
                 s1 = next_line s;
                 s2 = snd (accept (Some NL) s1)
             in case expect (Some (''loop_'' @ NL)) s2 of
                  Inl e \<Rightarrow> Inl e
                | Inr s3 \<Rightarrow>
                    (case parse_loop_content s3 of
                       Inl e \<Rightarrow> Inl e
                     | Inr (loop_content, s4) \<Rightarrow> Inr (Some (block_name, loop_content), s4))))"

text \<open>The loop that skips leading blank lines (lines 70-71).\<close>

function skip_blank_lines :: "LineStream \<Rightarrow> LineStream" where
  "skip_blank_lines s =
     (case accept (Some NL) s of
        (True, s') \<Rightarrow> skip_blank_lines s'
      | (False, s') \<Rightarrow> s')"
  by pat_completeness auto
termination
proof (relation "measure remaining")
  show "wf (measure remaining)"
    by simp
next
  fix s x b s'
  assume "(b, s') = accept (Some NL) s" and "b = True"
  then have "curr s \<noteq> None" and "s' = next_line s"
    by (auto simp: accept_def split: if_splits)
  then have "remaining s' < remaining s"
    by (cases "iter s"; cases "curr_pair s")
       (simp_all add: remaining_def next_line_def curr_def)
  then show "(s', s) \<in> measure remaining"
    by simp
qed

declare skip_blank_lines.simps [simp del]

text \<open>
  The loop over the data blocks (lines 73-80). The dictionary \<^verbatim>\<open>data_blocks\<close> is an
  association list in insertion order; \<^verbatim>\<open>data_blocks[block_name] = contents\<close> replaces
  the value of a key that is present and appends a new key otherwise.
\<close>

function data_blocks_loop ::
  "(string \<times> DataFrame) list \<Rightarrow> LineStream
   \<Rightarrow> error + ((string \<times> DataFrame) list \<times> LineStream)" where
  "data_blocks_loop data_blocks s =
     (case parse_data_block s of
        Inl e \<Rightarrow> Inl e
      | Inr (None, s') \<Rightarrow> Inr (data_blocks, s')
      | Inr (Some (block_name, contents), s') \<Rightarrow>
          data_blocks_loop (AList.update block_name contents data_blocks) s')"
  by pat_completeness auto
termination
proof (relation "measure (\<lambda>(data_blocks, s). remaining s)")
  show "wf (measure (\<lambda>(data_blocks, s). remaining s))"
    by simp
next
  fix data_blocks :: "(string \<times> DataFrame) list"
    and s x y s' b block_name contents
  assume pdb: "parse_data_block s = Inr x" and x: "(y, s') = x" and y: "y = Some b"
    and b: "(block_name, contents) = b"
  have le: "remaining (next_line t) \<le> remaining t" for t
    by (cases "iter t"; cases "curr_pair t") (simp_all add: remaining_def next_line_def)
  have lt: "curr t \<noteq> None \<Longrightarrow> remaining (next_line t) < remaining t" for t
    by (cases "iter t"; cases "curr_pair t")
       (simp_all add: remaining_def next_line_def curr_def)
  have acc: "remaining (snd (accept item t)) \<le> remaining t" for item t
    using le [of t] by (simp add: accept_def)
  have names: "data_names_loop ns t = Inr (ns', t') \<Longrightarrow> remaining t' \<le> remaining t"
    for ns t ns' t'
  proof (induction ns t rule: data_names_loop.induct)
    case (1 data_names t)
    show ?case
    proof (cases "parse_data_name t")
      case (Inl e)
      with "1.prems" show ?thesis
        by (subst (asm) data_names_loop.simps) simp
    next
      case (Inr r)
      obtain o1 t1 where r: "r = (o1, t1)"
        by (cases r)
      show ?thesis
      proof (cases o1)
        case None
        with Inr r "1.prems" have "t' = t1"
          by (subst (asm) data_names_loop.simps) simp
        moreover from Inr r None have "t1 = t"
          by (auto simp: parse_data_name_def split: option.splits if_splits list.splits)
        ultimately show ?thesis
          by simp
      next
        case (Some n)
        with Inr r "1.prems" have rec: "data_names_loop (data_names @ [n]) t1 = Inr (ns', t')"
          by (subst (asm) data_names_loop.simps) simp
        from Inr r Some have "t1 = next_line t"
          by (auto simp: parse_data_name_def split: option.splits if_splits list.splits)
        with "1.IH" [OF Inr r [symmetric] Some rec] le [of t] show ?thesis
          by simp
      qed
    qed
  qed
  have rows: "rows_loop ns rs t = Inr (rs', t') \<Longrightarrow> remaining t' \<le> remaining t"
    for ns rs t rs' t'
  proof (induction ns rs t rule: rows_loop.induct)
    case (1 data_names rows t)
    show ?case
    proof (cases "curr t = Some NL")
      case True
      with "1.prems" have "t' = next_line t"
        by (subst (asm) rows_loop.simps) (simp add: accept_def)
      with le [of t] show ?thesis
        by simp
    next
      case nl: False
      show ?thesis
      proof (cases "curr t")
        case None
        with nl "1.prems" have "t' = next_line t"
          by (subst (asm) rows_loop.simps) (simp add: accept_def)
        with le [of t] show ?thesis
          by simp
      next
        case (Some line)
        with nl "1.prems" have len: "length (split line) = length data_names"
          and rec: "rows_loop data_names (rows @ [split line]) (next_line t) = Inr (rs', t')"
          by (subst (asm) rows_loop.simps, simp add: accept_def split: if_splits)+
        have a1: "(False, t) = accept (Some NL) t"
          using nl by (simp add: accept_def)
        have a2: "(False, t) = accept None t"
          using Some by (simp add: accept_def)
        have "remaining t' \<le> remaining (next_line t)"
          using "1.IH" [OF a1 refl a2 refl Some _ rec] len by simp
        with le [of t] show ?thesis
          by simp
      qed
    qed
  qed
  have loop: "parse_loop_content t = Inr (c, t') \<Longrightarrow> remaining t' \<le> remaining t"
    for t c t'
    by (auto simp: parse_loop_content_def split: sum.splits prod.splits if_splits
        dest!: names rows)
  have exp: "expect item t = Inr t' \<Longrightarrow> remaining t' \<le> remaining t" for item t t'
    using le [of t] by (auto simp: expect_def accept_def split: if_splits)
  from pdb x y obtain line s3 where cur: "curr s = Some line"
    and e: "expect (Some (''loop_'' @ NL)) (snd (accept (Some NL) (next_line s))) = Inr s3"
    and l: "parse_loop_content s3 = Inr (snd b, s')"
    by (auto simp: parse_data_block_def Let_def split: option.splits if_splits sum.splits)
  have "remaining s' \<le> remaining s3"
    using loop [OF l] .
  also have "\<dots> \<le> remaining (snd (accept (Some NL) (next_line s)))"
    using exp [OF e] .
  also have "\<dots> \<le> remaining (next_line s)"
    using acc .
  also have "\<dots> < remaining s"
    using lt [of s] cur by simp
  finally show "((AList.update block_name contents data_blocks, s'), (data_blocks, s))
                \<in> measure (\<lambda>(data_blocks, s). remaining s)"
    by simp
qed

declare data_blocks_loop.simps [simp del]

text \<open>\<^verbatim>\<open>parse\<close> (lines 66-82)\<close>

definition parse :: "LineStream \<Rightarrow> error + (string \<times> DataFrame) list" where
  "parse s =
     (case data_blocks_loop [] (skip_blank_lines s) of
        Inl e \<Rightarrow> Inl e
      | Inr (data_blocks, s') \<Rightarrow> Inr data_blocks)"

section \<open>The data blocks of an input, in order\<close>

text \<open>
  The specification speaks of the data blocks of an input in input order, and of the
  last block of a given name. \<open>block_sequence\<close> is that sequence: the results of
  \<open>parse_data_block\<close>, called until it finds no further block, collected in a list
  (with no dictionary).
\<close>

function block_sequence :: "LineStream \<Rightarrow> error + (string \<times> DataFrame) list" where
  "block_sequence s =
     (case parse_data_block s of
        Inl e \<Rightarrow> Inl e
      | Inr (None, s') \<Rightarrow> Inr []
      | Inr (Some b, s') \<Rightarrow>
          (case block_sequence s' of
             Inl e \<Rightarrow> Inl e
           | Inr bs \<Rightarrow> Inr (b # bs)))"
  by pat_completeness auto
termination
proof (relation "{(s', s). \<exists>b. parse_data_block s = Inr (Some b, s')}")
  show "wf {(s', s). \<exists>b. parse_data_block s = Inr (Some b, s')}"
    unfolding wf_def
  proof (intro allI impI)
    fix P :: "LineStream \<Rightarrow> bool" and s
    assume step: "\<forall>x. (\<forall>y. (y, x) \<in> {(s', s). \<exists>b. parse_data_block s = Inr (Some b, s')}
                    \<longrightarrow> P y) \<longrightarrow> P x"
    have "P t" for d :: "(string \<times> DataFrame) list" and t
    proof (induction d t rule: data_blocks_loop.induct)
      case (1 data_blocks t)
      have "P y" if "parse_data_block t = Inr (Some b, y)" for y b
        using "1.IH" [OF that refl refl, of "fst b" "snd b"] by simp
      with step show ?case
        by blast
    qed
    then show "P s" .
  qed
qed auto

declare block_sequence.simps [simp del]

section \<open>The inputs of the specification's scenarios\<close>

definition row_mismatch_file :: File where
  "row_mismatch_file =
     \<lparr>name = ''x.star'',
      lines = [''data_x'' @ NL, ''loop_'' @ NL, ''_a _b'' @ NL, ''1 2 3'' @ NL]\<rparr>"

text \<open>The stream of \<open>row_mismatch_file\<close> after its first three lines have been consumed.\<close>

definition row_mismatch_stream :: LineStream where
  "row_mismatch_stream =
     next_line (next_line (next_line (StarParser_init row_mismatch_file)))"

definition empty_loop_file :: File where
  "empty_loop_file = \<lparr>name = ''x.star'', lines = [''data_x'' @ NL, ''loop_'' @ NL]\<rparr>"

definition end_to_end_file :: File where
  "end_to_end_file =
     \<lparr>name = ''test.star'',
      lines = [''data_test'' @ NL, ''loop_'' @ NL, ''_id'' @ NL, ''_value'' @ NL,
               ''1 foo'' @ NL, ''2 bar'' @ NL, NL]\<rparr>"

definition no_rows_file :: File where
  "no_rows_file =
     \<lparr>name = ''x.star'', lines = [''data_x'' @ NL, ''loop_'' @ NL, ''_a'' @ NL, ''_b'' @ NL]\<rparr>"

definition empty_file :: File where
  "empty_file = \<lparr>name = ''x.star'', lines = []\<rparr>"

definition duplicate_file :: File where
  "duplicate_file =
     \<lparr>name = ''dup.star'',
      lines = [''data_x'' @ NL, ''loop_'' @ NL, ''_a'' @ NL, ''1'' @ NL, NL,
               ''data_y'' @ NL, ''loop_'' @ NL, ''_b'' @ NL, NL,
               ''data_x'' @ NL, ''loop_'' @ NL, ''_c'' @ NL, ''7'' @ NL, ''8'' @ NL]\<rparr>"

section \<open>The scenarios\<close>

text \<open>
  C3. The end-to-end example: the lines \<^verbatim>\<open>data_test\<close>, \<^verbatim>\<open>loop_\<close>, \<^verbatim>\<open>_id\<close>, \<^verbatim>\<open>_value\<close>,
  \<^verbatim>\<open>1 foo\<close>, \<^verbatim>\<open>2 bar\<close> and a blank line parse to a mapping with the single key
  \<^verbatim>\<open>test\<close>, whose table has the columns \<^verbatim>\<open>id\<close>, \<^verbatim>\<open>value\<close> and the rows
  \<^verbatim>\<open>1 foo\<close>, \<^verbatim>\<open>2 bar\<close>, in that order.
\<close>

theorem end_to_end_example:
  "parse (StarParser_init end_to_end_file) =
     Inr [(''test'', \<lparr>columns = [''id'', ''value''],
                      records = [[''1'', ''foo''], [''2'', ''bar'']]\<rparr>)]"
  by code_simp

text \<open>
  C1, as stated, fails: on the input \<^verbatim>\<open>data_x\<close>, \<^verbatim>\<open>loop_\<close>, \<^verbatim>\<open>_a _b\<close>, \<^verbatim>\<open>1 2 3\<close> the parse
  does not raise a parse error carrying row 3: it ends with \<^verbatim>\<open>TypeError\<close>, and the
  cursor stands at row 4 when the data row \<^verbatim>\<open>1 2 3\<close> is checked.
\<close>

theorem row_mismatch_not_row_3:
  "parse (StarParser_init row_mismatch_file) \<noteq>
     Inl (StarParseError ''x.star'' 3
            (PStr ''number of data items in row does not match number of data names''))
   \<and> parse (StarParser_init row_mismatch_file) = Inl TypeError
   \<and> row row_mismatch_stream = Inr 4
   \<and> curr row_mismatch_stream = Some (''1 2 3'' @ NL)"
  by code_simp

text \<open>
  C1, amended. On that input the line \<^verbatim>\<open>_a _b\<close> declares the single data name \<^verbatim>\<open>a\<close>;
  the data row \<^verbatim>\<open>1 2 3\<close>, of three items, is the line at row 4; the loop over the
  rows fails there and the parse returns no mapping.
\<close>

theorem row_mismatch_at_row_4:
  "data_names_loop [] (next_line (next_line (StarParser_init row_mismatch_file))) =
     Inr ([''a''], row_mismatch_stream)
   \<and> row row_mismatch_stream = Inr 4
   \<and> curr row_mismatch_stream = Some (''1 2 3'' @ NL)
   \<and> split (''1 2 3'' @ NL) = [''1'', ''2'', ''3'']
   \<and> isl (rows_loop [''a''] [] row_mismatch_stream)
   \<and> isl (parse (StarParser_init row_mismatch_file))"
  by code_simp

text \<open>
  C2 fails on the code: on the input \<^verbatim>\<open>data_x\<close>, \<^verbatim>\<open>loop_\<close> followed by the end of the
  input, \<open>parse_data_name\<close> calls \<^verbatim>\<open>startswith\<close> on \<^verbatim>\<open>None\<close> and the parse ends with
  \<^verbatim>\<open>AttributeError\<close>, before the check for an empty loop. Where that check is reached
  (a blank line after \<^verbatim>\<open>loop_\<close>), the constructor of the parse error is called with
  one argument and the parse ends with \<^verbatim>\<open>TypeError\<close>.
\<close>

theorem empty_loop_attribute_error:
  "parse (StarParser_init empty_loop_file) = Inl AttributeError
   \<and> parse (StarParser_init \<lparr>name = ''x.star'',
              lines = [''data_x'' @ NL, ''loop_'' @ NL, NL]\<rparr>) = Inl TypeError"
  by code_simp

text \<open>
  C4 fails on the code: when the input ends right after the data names of a loop,
  with or without a terminator on the last line, \<open>parse_data_name\<close> reads past the
  end and the parse ends with \<^verbatim>\<open>AttributeError\<close>; no table is returned.
\<close>

theorem no_rows_attribute_error:
  "parse (StarParser_init no_rows_file) = Inl AttributeError
   \<and> parse (StarParser_init \<lparr>name = ''x.star'',
              lines = [''data_x'' @ NL, ''loop_'' @ NL, ''_a'']\<rparr>) = Inl AttributeError"
  by code_simp

text \<open>
  C5 fails on the code: on an exhausted stream \<open>curr\<close> is \<^verbatim>\<open>None\<close> and advancing is
  safe, but \<open>row\<close> subscripts \<^verbatim>\<open>None\<close> and raises \<^verbatim>\<open>TypeError\<close>.
\<close>

theorem row_at_end_of_input:
  "curr (LineStream_init empty_file) = None
   \<and> next_line (LineStream_init empty_file) = LineStream_init empty_file
   \<and> row (LineStream_init empty_file) = Inl TypeError
   \<and> row (next_line (LineStream_init \<lparr>name = ''x.star'', lines = [''data_x'' @ NL]\<rparr>)) =
       Inl TypeError"
  by code_simp

section \<open>The data-name line\<close>

lemma split_from_Nil_iff:
  "split_from cs tok = [] \<longleftrightarrow> tok = [] \<and> (\<forall>c\<in>set cs. isspace c)"
  by (induction cs arbitrary: tok) auto

lemma split_Nil_iff: "split s = [] \<longleftrightarrow> (\<forall>c\<in>set s. isspace c)"
  by (simp add: split_def split_from_Nil_iff)

text \<open>
  C10. On a line that starts with \<^verbatim>\<open>_\<close>, \<open>parse_data_name\<close> raises \<^verbatim>\<open>IndexError\<close>
  exactly when no character after the underscore is other than whitespace; it then
  neither signals that there is no further data name nor raises a parse error. On
  every other line that starts with \<^verbatim>\<open>_\<close> it returns a data name and advances.
\<close>

theorem parse_data_name_index_error:
  assumes "curr s = Some line" and "startswith line ''_''"
  shows "if \<forall>c\<in>set (drop 1 line). isspace c
         then parse_data_name s = Inl IndexError
         else \<exists>data_name. parse_data_name s = Inr (Some data_name, next_line s)"
  using assms split_Nil_iff [of "drop 1 line"]
  by (auto simp: parse_data_name_def split: list.splits)

theorem parse_data_name_index_error_witness:
  "curr (LineStream_init \<lparr>name = ''x.star'', lines = [''_'' @ NL]\<rparr>) = Some (''_'' @ NL)
   \<and> startswith (''_'' @ NL) ''_''
   \<and> parse_data_name (LineStream_init \<lparr>name = ''x.star'', lines = [''_'' @ NL]\<rparr>) =
       Inl IndexError"
proof -
  let ?s = "LineStream_init \<lparr>name = ''x.star'', lines = [''_'' @ NL]\<rparr>"
  have c: "curr ?s = Some (''_'' @ NL)"
    by code_simp
  have p: "startswith (''_'' @ NL) ''_''"
    by code_simp
  have w: "\<forall>c\<in>set (drop 1 (''_'' @ NL)). isspace c"
    by code_simp
  from parse_data_name_index_error [OF c p] w have "parse_data_name ?s = Inl IndexError"
    by (simp only: if_True)
  with c p show ?thesis
    by (simp only: simp_thms)
qed

section \<open>Blank input\<close>

lemma skip_blank_lines_exhausts:
  "\<forall>p\<in>set (iter s). snd p = NL \<Longrightarrow> curr s = None \<or> curr s = Some NL
   \<Longrightarrow> curr (skip_blank_lines s) = None"
proof (induction s rule: skip_blank_lines.induct)
  case (1 s)
  show ?case
  proof (cases "curr s")
    case None
    then show ?thesis
      by (subst skip_blank_lines.simps) (simp add: accept_def)
  next
    case (Some l)
    with "1.prems" have l: "curr s = Some NL"
      by simp
    have a: "(True, next_line s) = accept (Some NL) s"
      using l by (simp add: accept_def)
    have "\<forall>p\<in>set (iter (next_line s)). snd p = NL"
      using "1.prems"(1) by (cases "iter s") (auto simp: next_line_def)
    moreover have "curr (next_line s) = None \<or> curr (next_line s) = Some NL"
      using "1.prems"(1) by (cases "iter s") (auto simp: next_line_def curr_def)
    ultimately have "curr (skip_blank_lines (next_line s)) = None"
      using "1.IH" [OF a refl] by simp
    then show ?thesis
      using l by (subst skip_blank_lines.simps) (simp add: accept_def)
  qed
qed

lemma data_blocks_loop_at_end:
  "curr s = None \<Longrightarrow> data_blocks_loop data_blocks s = Inr (data_blocks, s)"
  by (subst data_blocks_loop.simps) (simp add: parse_data_block_def)

text \<open>
  C8. An input all of whose lines are a lone line terminator, the empty input
  included, parses to the empty mapping.
\<close>

theorem blank_lines_only:
  assumes "\<forall>l\<in>set (lines file). l = NL"
  shows "parse (StarParser_init file) = Inr []"
proof -
  let ?s = "StarParser_init file"
  have "\<forall>p\<in>set (iter ?s). snd p = NL" and "curr ?s = None \<or> curr ?s = Some NL"
    using assms
    by (cases "lines file";
        auto simp: StarParser_init_def LineStream_init_def next_line_def curr_def
          in_set_enumerate_eq)+
  then have "curr (skip_blank_lines ?s) = None"
    by (rule skip_blank_lines_exhausts)
  then show ?thesis
    by (simp add: parse_def data_blocks_loop_at_end)
qed

theorem blank_lines_only_witness:
  "parse (StarParser_init \<lparr>name = ''x.star'', lines = [NL, NL, NL]\<rparr>) = Inr []
   \<and> parse (StarParser_init empty_file) = Inr []"
  using blank_lines_only [of "\<lparr>name = ''x.star'', lines = [NL, NL, NL]\<rparr>"]
    blank_lines_only [of empty_file]
  by (simp add: empty_file_def)

section \<open>The shape of the rows\<close>

lemma rows_loop_lengths:
  "rows_loop ns rs s = Inr (rs', s') \<Longrightarrow> \<forall>r\<in>set rs. length r = length ns
   \<Longrightarrow> \<forall>r\<in>set rs'. length r = length ns"
proof (induction ns rs s rule: rows_loop.induct)
  case (1 data_names rows t)
  show ?case
  proof (cases "curr t = Some NL \<or> curr t = None")
    case True
    with "1.prems"(1) have "rs' = rows"
      by (subst (asm) rows_loop.simps) (auto simp: accept_def)
    with "1.prems"(2) show ?thesis
      by simp
  next
    case False
    then obtain line where line: "curr t = Some line" and nl: "line \<noteq> NL"
      by (cases "curr t") auto
    from line nl "1.prems"(1) have len: "length (split line) = length data_names"
      and rec: "rows_loop data_names (rows @ [split line]) (next_line t) = Inr (rs', s')"
      by (subst (asm) rows_loop.simps, simp add: accept_def split: if_splits)+
    have a1: "(False, t) = accept (Some NL) t"
      using line nl by (simp add: accept_def)
    have a2: "(False, t) = accept None t"
      using line by (simp add: accept_def)
    have "\<forall>r\<in>set (rows @ [split line]). length r = length data_names"
      using "1.prems"(2) len by simp
    with "1.IH" [OF a1 refl a2 refl line _ rec] len show ?thesis
      by simp
  qed
qed

lemma parse_loop_content_lengths:
  "parse_loop_content s = Inr (t, s') \<Longrightarrow> r \<in> set (records t)
   \<Longrightarrow> length r = length (columns t)"
  by (auto simp: parse_loop_content_def from_records_def
      split: sum.splits prod.splits if_splits dest!: rows_loop_lengths)

lemma parse_data_block_lengths:
  "parse_data_block s = Inr (Some (n, t), s') \<Longrightarrow> r \<in> set (records t)
   \<Longrightarrow> length r = length (columns t)"
  by (auto simp: parse_data_block_def Let_def
      split: option.splits sum.splits prod.splits if_splits dest: parse_loop_content_lengths)

lemma set_update_subset: "set (AList.update k v al) \<subseteq> insert (k, v) (set al)"
  by (induction al) auto

lemma data_blocks_loop_lengths:
  "data_blocks_loop d s = Inr (d', s')
   \<Longrightarrow> \<forall>(n, t)\<in>set d. \<forall>r\<in>set (records t). length r = length (columns t)
   \<Longrightarrow> \<forall>(n, t)\<in>set d'. \<forall>r\<in>set (records t). length r = length (columns t)"
proof (induction d s rule: data_blocks_loop.induct)
  case (1 data_blocks s)
  show ?case
  proof (cases "parse_data_block s")
    case (Inl e)
    with "1.prems"(1) show ?thesis
      by (subst (asm) data_blocks_loop.simps) simp
  next
    case (Inr x)
    obtain y s1 where x: "x = (y, s1)"
      by (cases x)
    show ?thesis
    proof (cases y)
      case None
      with Inr x "1.prems"(1) have "d' = data_blocks"
        by (subst (asm) data_blocks_loop.simps) simp
      with "1.prems"(2) show ?thesis
        by simp
    next
      case (Some b)
      obtain n t where b: "b = (n, t)"
        by (cases b)
      from Inr x Some b "1.prems"(1)
      have rec: "data_blocks_loop (AList.update n t data_blocks) s1 = Inr (d', s')"
        by (subst (asm) data_blocks_loop.simps) simp
      have "\<forall>r\<in>set (records t). length r = length (columns t)"
        using parse_data_block_lengths [of s n t s1] Inr x Some b by simp
      with "1.prems"(2) set_update_subset [of n t data_blocks]
      have "\<forall>(n, t)\<in>set (AList.update n t data_blocks).
              \<forall>r\<in>set (records t). length r = length (columns t)"
        by auto
      with "1.IH" [OF Inr x [symmetric] Some b [symmetric] rec] show ?thesis
        by simp
    qed
  qed
qed

text \<open>
  C6. When the parse succeeds, every row of every table of the mapping has as many
  values as the table has column names.
\<close>

theorem rows_match_columns:
  assumes "parse s = Inr d" and "(n, t) \<in> set d" and "r \<in> set (records t)"
  shows "length r = length (columns t)"
proof -
  from assms(1) obtain s' where "data_blocks_loop [] (skip_blank_lines s) = Inr (d, s')"
    by (auto simp: parse_def split: sum.splits)
  from data_blocks_loop_lengths [OF this] assms(2,3) show ?thesis
    by auto
qed

theorem rows_match_columns_witness:
  "parse (StarParser_init end_to_end_file) =
     Inr [(''test'', \<lparr>columns = [''id'', ''value''],
                      records = [[''1'', ''foo''], [''2'', ''bar'']]\<rparr>)]
   \<and> length [''2'', ''bar''] = length [''id'', ''value'']"
proof -
  let ?t = "\<lparr>columns = [''id'', ''value''], records = [[''1'', ''foo''], [''2'', ''bar'']]\<rparr>"
  have p: "parse (StarParser_init end_to_end_file) = Inr [(''test'', ?t)]"
    by code_simp
  have "length [''2'', ''bar''] = length (columns ?t)"
    by (rule rows_match_columns [OF p, of "''test''"]) simp_all
  with p show ?thesis
    by simp
qed

section \<open>The result does not depend on the source\<close>

lemma next_line_fname: "next_line (s\<lparr>fname := f\<rparr>) = (next_line s)\<lparr>fname := f\<rparr>"
  by (simp add: next_line_def split: list.splits)

lemma curr_fname: "curr (s\<lparr>fname := f\<rparr>) = curr s"
  by (simp add: curr_def)

lemma accept_fname:
  "accept item (s\<lparr>fname := f\<rparr>) = apsnd (\<lambda>t. t\<lparr>fname := f\<rparr>) (accept item s)"
  by (simp add: accept_def curr_fname next_line_fname)

lemma expect_fname:
  "expect item (s\<lparr>fname := f\<rparr>) = map_sum id (\<lambda>t. t\<lparr>fname := f\<rparr>) (expect item s)"
  by (simp add: expect_def accept_def curr_fname next_line_fname)

lemma parse_data_name_fname:
  "parse_data_name (s\<lparr>fname := f\<rparr>) =
     map_sum id (apsnd (\<lambda>t. t\<lparr>fname := f\<rparr>)) (parse_data_name s)"
  by (simp add: parse_data_name_def curr_fname next_line_fname split: option.splits list.splits)

lemma data_names_loop_fname:
  "data_names_loop ns (s\<lparr>fname := f\<rparr>) =
     map_sum id (apsnd (\<lambda>t. t\<lparr>fname := f\<rparr>)) (data_names_loop ns s)"
proof (induction ns s rule: data_names_loop.induct)
  case (1 data_names s)
  show ?case
    unfolding data_names_loop.simps [of data_names s]
      data_names_loop.simps [of data_names "s\<lparr>fname := f\<rparr>"]
    using "1.IH" by (auto simp: parse_data_name_fname split: sum.splits option.splits)
qed

lemma rows_loop_fname:
  "rows_loop ns rs (s\<lparr>fname := f\<rparr>) =
     map_sum id (apsnd (\<lambda>t. t\<lparr>fname := f\<rparr>)) (rows_loop ns rs s)"
proof (induction ns rs s rule: rows_loop.induct)
  case (1 data_names rows s)
  show ?case
    unfolding rows_loop.simps [of data_names rows s]
      rows_loop.simps [of data_names rows "s\<lparr>fname := f\<rparr>"]
    using "1.IH"
    by (auto simp: accept_def curr_fname next_line_fname split: option.splits)
qed

lemma parse_loop_content_fname:
  "parse_loop_content (s\<lparr>fname := f\<rparr>) =
     map_sum id (apsnd (\<lambda>t. t\<lparr>fname := f\<rparr>)) (parse_loop_content s)"
  by (auto simp: parse_loop_content_def data_names_loop_fname rows_loop_fname
      split: sum.splits)

lemma parse_data_block_fname:
  "parse_data_block (s\<lparr>fname := f\<rparr>) =
     map_sum id (apsnd (\<lambda>t. t\<lparr>fname := f\<rparr>)) (parse_data_block s)"
  by (auto simp: parse_data_block_def Let_def curr_fname next_line_fname accept_fname
      expect_fname parse_loop_content_fname split: option.splits sum.splits)

lemma skip_blank_lines_fname:
  "skip_blank_lines (s\<lparr>fname := f\<rparr>) = (skip_blank_lines s)\<lparr>fname := f\<rparr>"
proof (induction s rule: skip_blank_lines.induct)
  case (1 s)
  show ?case
    unfolding skip_blank_lines.simps [of s] skip_blank_lines.simps [of "s\<lparr>fname := f\<rparr>"]
    using "1.IH" by (auto simp: accept_def curr_fname next_line_fname)
qed

lemma data_blocks_loop_fname:
  "data_blocks_loop d (s\<lparr>fname := f\<rparr>) =
     map_sum id (apsnd (\<lambda>t. t\<lparr>fname := f\<rparr>)) (data_blocks_loop d s)"
proof (induction d s rule: data_blocks_loop.induct)
  case (1 data_blocks s)
  show ?case
    unfolding data_blocks_loop.simps [of data_blocks s]
      data_blocks_loop.simps [of data_blocks "s\<lparr>fname := f\<rparr>"]
    using "1.IH" by (auto simp: parse_data_block_fname split: sum.splits option.splits)
qed

lemma parse_fname: "parse (s\<lparr>fname := f\<rparr>) = parse s"
  by (auto simp: parse_def skip_blank_lines_fname data_blocks_loop_fname split: sum.splits)

text \<open>
  C9. Two files with the same lines, whatever their names, give the same result:
  the same mapping when the parse succeeds, the same failure when it does not.
\<close>

theorem parse_depends_on_lines_only:
  assumes "lines file1 = lines file2"
  shows "parse (StarParser_init file1) = parse (StarParser_init file2)"
proof -
  have "StarParser_init file1 = (StarParser_init file2)\<lparr>fname := name file1\<rparr>"
    using assms
    by (simp add: StarParser_init_def LineStream_init_def next_line_fname [symmetric])
  then show ?thesis
    by (simp add: parse_fname)
qed

theorem parse_depends_on_lines_only_witness:
  "lines (end_to_end_file\<lparr>name := ''copy.star''\<rparr>) = lines end_to_end_file
   \<and> parse (StarParser_init (end_to_end_file\<lparr>name := ''copy.star''\<rparr>)) =
       parse (StarParser_init end_to_end_file)
   \<and> lines (row_mismatch_file\<lparr>name := ''copy.star''\<rparr>) = lines row_mismatch_file
   \<and> parse (StarParser_init (row_mismatch_file\<lparr>name := ''copy.star''\<rparr>)) =
       parse (StarParser_init row_mismatch_file)"
  using parse_depends_on_lines_only [of "end_to_end_file\<lparr>name := ''copy.star''\<rparr>" end_to_end_file]
    parse_depends_on_lines_only [of "row_mismatch_file\<lparr>name := ''copy.star''\<rparr>" row_mismatch_file]
  by simp

section \<open>Duplicate block names\<close>

lemma data_blocks_loop_fold:
  "data_blocks_loop d s = Inr (d', s')
   \<Longrightarrow> \<exists>bs. block_sequence s = Inr bs \<and> d' = fold (\<lambda>b. AList.update (fst b) (snd b)) bs d"
proof (induction d s rule: data_blocks_loop.induct)
  case (1 data_blocks s)
  show ?case
  proof (cases "parse_data_block s")
    case (Inl e)
    with "1.prems" show ?thesis
      by (subst (asm) data_blocks_loop.simps) simp
  next
    case (Inr x)
    obtain y s1 where x: "x = (y, s1)"
      by (cases x)
    show ?thesis
    proof (cases y)
      case None
      with Inr x "1.prems" have "d' = data_blocks"
        by (subst (asm) data_blocks_loop.simps) simp
      moreover from Inr x None have "block_sequence s = Inr []"
        by (subst block_sequence.simps) simp
      ultimately show ?thesis
        by simp
    next
      case (Some b)
      obtain n t where b: "b = (n, t)"
        by (cases b)
      from Inr x Some b "1.prems"
      have rec: "data_blocks_loop (AList.update n t data_blocks) s1 = Inr (d', s')"
        by (subst (asm) data_blocks_loop.simps) simp
      from "1.IH" [OF Inr x [symmetric] Some b [symmetric] rec]
      obtain bs where bs: "block_sequence s1 = Inr bs"
        and d': "d' = fold (\<lambda>b. AList.update (fst b) (snd b)) bs (AList.update n t data_blocks)"
        by blast
      from Inr x Some bs have "block_sequence s = Inr (b # bs)"
        by (subst block_sequence.simps) simp
      with d' b show ?thesis
        by simp
    qed
  qed
qed

lemma map_of_fold_update:
  "map_of (fold (\<lambda>b. AList.update (fst b) (snd b)) bs d) = map_of d ++ map_of (rev bs)"
proof (induction bs arbitrary: d)
  case Nil
  show ?case
    by simp
next
  case (Cons b bs)
  have "map_of (fold (\<lambda>b. AList.update (fst b) (snd b)) (b # bs) d) =
        map_of (AList.update (fst b) (snd b) d) ++ map_of (rev bs)"
    using Cons.IH by simp
  also have "\<dots> = (map_of d ++ map_of [b]) ++ map_of (rev bs)"
    by (cases b) (simp add: update_conv')
  also have "\<dots> = map_of d ++ map_of (rev (b # bs))"
    by simp
  finally show ?case .
qed

lemma map_of_rev_last:
  "n \<notin> fst ` set post \<Longrightarrow> map_of (rev (pre @ (n, t) # post)) n = Some t"
proof -
  assume "n \<notin> fst ` set post"
  then have "map_of (rev post) n = None"
    by (simp add: map_of_eq_None_iff)
  then show ?thesis
    by (simp add: map_add_def)
qed

text \<open>
  C7. When the parse succeeds, the block names of the mapping are those of the data
  blocks of the input, and each name is bound to the table of the last block of that
  name in input order: a block of name \<open>n\<close> and table \<open>t\<close> that no later block of
  the same name follows gives \<open>n\<close> the table \<open>t\<close>.
\<close>

theorem duplicate_block_last_wins:
  assumes "parse s = Inr d"
  shows "\<exists>bs. block_sequence (skip_blank_lines s) = Inr bs
           \<and> fst ` set d = fst ` set bs
           \<and> (\<forall>pre n t post. bs = pre @ (n, t) # post \<and> n \<notin> fst ` set post
                \<longrightarrow> map_of d n = Some t)"
proof -
  from assms obtain s' where "data_blocks_loop [] (skip_blank_lines s) = Inr (d, s')"
    by (auto simp: parse_def split: sum.splits)
  from data_blocks_loop_fold [OF this]
  obtain bs where bs: "block_sequence (skip_blank_lines s) = Inr bs"
    and d: "d = fold (\<lambda>b. AList.update (fst b) (snd b)) bs []"
    by blast
  have m: "map_of d = map_of (rev bs)"
    using map_of_fold_update [of bs "[]"] d by simp
  have "dom (map_of d) = dom (map_of (rev bs))"
    using m by simp
  then have "fst ` set d = fst ` set bs"
    by (simp add: dom_map_of_conv_image_fst)
  moreover have "map_of d n = Some t" if "bs = pre @ (n, t) # post" "n \<notin> fst ` set post"
    for pre n t post
    using that m map_of_rev_last [of n post pre t] by simp
  ultimately show ?thesis
    using bs by blast
qed

theorem duplicate_block_last_wins_witness:
  "parse (StarParser_init duplicate_file) =
     Inr [(''x'', \<lparr>columns = [''c''], records = [[''7''], [''8'']]\<rparr>),
          (''y'', \<lparr>columns = [''b''], records = []\<rparr>)]
   \<and> block_sequence (skip_blank_lines (StarParser_init duplicate_file)) =
     Inr [(''x'', \<lparr>columns = [''a''], records = [[''1'']]\<rparr>),
          (''y'', \<lparr>columns = [''b''], records = []\<rparr>),
          (''x'', \<lparr>columns = [''c''], records = [[''7''], [''8'']]\<rparr>)]
   \<and> map_of [(''x'', \<lparr>columns = [''c''], records = [[''7''], [''8'']]\<rparr>),
              (''y'', \<lparr>columns = [''b''], records = []\<rparr>)] ''x'' =
     Some \<lparr>columns = [''c''], records = [[''7''], [''8'']]\<rparr>"
proof -
  define s0 where "s0 = StarParser_init duplicate_file"
  define x1 where "x1 = (''x'', \<lparr>columns = [''a''], records = [[''1'']]\<rparr>)"
  define y where "y = (''y'', \<lparr>columns = [''b''], records = []\<rparr>)"
  define t where "t = \<lparr>columns = [''c''], records = [[''7''], [''8'']]\<rparr>"
  define k where "k = ''x''"
  define d where "d = [(k, t), y]"
  have p: "parse s0 = Inr d"
    unfolding s0_def d_def k_def t_def y_def by code_simp
  have b: "block_sequence (skip_blank_lines s0) = Inr [x1, y, (k, t)]"
    unfolding s0_def x1_def k_def t_def y_def by code_simp
  have "\<exists>bs. block_sequence (skip_blank_lines s0) = Inr bs
           \<and> fst ` set d = fst ` set bs
           \<and> (\<forall>pre n t post. bs = pre @ (n, t) # post \<and> n \<notin> fst ` set post
                \<longrightarrow> map_of d n = Some t)"
    by (rule duplicate_block_last_wins [OF p])
  then obtain bs
    where bs: "block_sequence (skip_blank_lines s0) = Inr bs"
      and keys: "fst ` set d = fst ` set bs"
      and last: "\<forall>pre n t post. bs = pre @ (n, t) # post \<and> n \<notin> fst ` set post
                   \<longrightarrow> map_of d n = Some t"
    by (elim exE conjE) (rule that)
  from bs b have "bs = [x1, y] @ (k, t) # []"
    by simp
  moreover have "k \<notin> fst ` set ([] :: (string \<times> DataFrame) list)"
    by simp
  ultimately have "map_of d k = Some t"
    using last by (simp only:)
  with p b show ?thesis
    unfolding s0_def d_def x1_def k_def t_def y_def by (simp only: simp_thms)
qed

end
